theory Spec2Isabelle
  imports Main
begin

section \<open>Strings of the host language\<close>

text \<open>
  A source text is a sequence of code units, modelled as a \<^typ>\<open>string\<close>. The three
  string methods used by \<open>getPosition\<close> are written out with the host language's
  treatment of arguments that are negative or too large: \<open>slice\<close> counts a negative
  bound from the end and clamps to the length, \<open>lastIndexOf\<close> clamps its start position
  to \<open>[0, length - 1]\<close> (the search string here is the single code unit line feed), and
  \<open>split\<close> on a separator always returns at least one piece.
\<close>

definition LF :: char where
  "LF = CHR 0x0A"

definition js_slice :: "string \<Rightarrow> int \<Rightarrow> int \<Rightarrow> string" where
  "js_slice s start fin =
     (let len = int (length s);
          from = (if start < 0 then max (len + start) 0 else min start len);
          to = (if fin < 0 then max (len + fin) 0 else min fin len)
      in take (nat (to - from)) (drop (nat from) s))"

fun split_from :: "char \<Rightarrow> string \<Rightarrow> string \<Rightarrow> string list" where
  "split_from sep cur [] = [rev cur]"
| "split_from sep cur (c # cs) =
     (if c = sep then rev cur # split_from sep [] cs else split_from sep (c # cur) cs)"

definition js_split :: "string \<Rightarrow> char \<Rightarrow> string list" where
  "js_split s sep = split_from sep [] s"

fun last_from :: "string \<Rightarrow> char \<Rightarrow> nat \<Rightarrow> int" where
  "last_from s c 0 = (if s ! 0 = c then 0 else - 1)"
| "last_from s c (Suc n) = (if s ! Suc n = c then int (Suc n) else last_from s c n)"

definition js_lastIndexOf :: "string \<Rightarrow> char \<Rightarrow> int \<Rightarrow> int" where
  "js_lastIndexOf s c pos =
     (let len = int (length s);
          start = min (max pos 0) (len - 1)
      in if start < 0 then - 1 else last_from s c (nat start))"

section \<open>The position resolver\<close>

record Position =
  line :: int
  column :: int

definition getPosition :: "string \<Rightarrow> int \<Rightarrow> Position" where
  "getPosition text offset =
     \<lparr> line = int (length (js_split (js_slice text 0 offset) LF)) - 1,
       column = offset - js_lastIndexOf text LF (offset - 1) - 1 \<rparr>"

text \<open>Lexicographic order on positions.\<close>

definition pos_le :: "Position \<Rightarrow> Position \<Rightarrow> bool" where
  "pos_le p q = (line p < line q \<or> (line p = line q \<and> column p \<le> column q))"

text \<open>
  The offset described by a line and a column, rebuilt from the lengths of the lines of
  the text: every line before the given one contributes its length and one line break.
\<close>

definition line_lengths :: "string \<Rightarrow> int list" where
  "line_lengths text = map (\<lambda>l. int (length l)) (js_split text LF)"

definition offset_of :: "string \<Rightarrow> Position \<Rightarrow> int" where
  "offset_of text p =
     sum_list (map (\<lambda>n. n + 1) (take (nat (line p)) (line_lengths text))) + column p"

section \<open>The syntax locator\<close>

datatype step = Key string | Index int

datatype SyntaxNode =
    ObjectNode int int "(string \<times> SyntaxNode) list"
  | ArrayNode int int "SyntaxNode list"
  | ValueNode int int

fun node_offset :: "SyntaxNode \<Rightarrow> int" where
  "node_offset (ObjectNode off len kvs) = off"
| "node_offset (ArrayNode off len cs) = off"
| "node_offset (ValueNode off len) = off"

fun node_length :: "SyntaxNode \<Rightarrow> int" where
  "node_length (ObjectNode off len kvs) = len"
| "node_length (ArrayNode off len cs) = len"
| "node_length (ValueNode off len) = len"

text \<open>
  Modelled from the spec: \<open>findNodeAtLocation\<close> belongs to the JSON parsing library, which
  is not part of the sources. The specification's locator descends one path step at a
  time: a string step must match an object's key exactly (the first match wins), an
  integer step must index an array's children, every other combination yields no node,
  and the empty path resolves to the root.
\<close>

fun descend :: "SyntaxNode \<Rightarrow> step \<Rightarrow> SyntaxNode option" where
  "descend (ObjectNode off len kvs) (Key k) = map_of kvs k"
| "descend (ArrayNode off len cs) (Index i) =
     (if 0 \<le> i \<and> i < int (length cs) then Some (cs ! nat i) else None)"
| "descend n s = None"

fun findNodeAtLocation :: "SyntaxNode \<Rightarrow> step list \<Rightarrow> SyntaxNode option" where
  "findNodeAtLocation n [] = Some n"
| "findNodeAtLocation n (s # ss) =
     (case descend n s of None \<Rightarrow> None | Some c \<Rightarrow> findNodeAtLocation c ss)"

section \<open>The annotation sink\<close>

record AnnotationProperties =
  "file" :: "string option"
  startLine :: "int option"
  startColumn :: "int option"
  endLine :: "int option"
  endColumn :: "int option"

datatype sink_call =
    CoreInfo string
  | CoreError string AnnotationProperties
  | CoreSetFailed string

definition no_properties :: AnnotationProperties where
  "no_properties =
     \<lparr> file = None, startLine = None, startColumn = None, endLine = None, endColumn = None \<rparr>"

definition file_only :: "string \<Rightarrow> AnnotationProperties" where
  "file_only p = no_properties \<lparr> file := Some p \<rparr>"

fun is_setFailed :: "sink_call \<Rightarrow> bool" where
  "is_setFailed (CoreSetFailed m) = True"
| "is_setFailed c = False"

text \<open>A thrown value: an instance of \<open>Error\<close> with its message, or any other value,
  kept as the string that \<open>String(value)\<close> gives.\<close>

datatype thrown = ErrorInstance string | NonError string

section \<open>The error annotator\<close>

record issue =
  path :: "step list"
  message :: string

text \<open>
  The body of the loop over the issues of a schema failure, the same in \<open>run\<close> and in
  \<open>SchemaValidationError.annotate\<close>: one call of \<open>core.error\<close> per issue, with a span
  when the locator finds a node.
\<close>

definition annotation :: "string \<Rightarrow> string \<Rightarrow> SyntaxNode \<Rightarrow> issue \<Rightarrow> sink_call" where
  "annotation p content json i =
     (let node = findNodeAtLocation json (path i)
      in CoreError (message i)
           \<lparr> file = Some p,
             startLine = map_option (\<lambda>n. line (getPosition content (node_offset n)) + 1) node,
             startColumn = map_option (\<lambda>n. column (getPosition content (node_offset n)) + 1) node,
             endLine =
               map_option (\<lambda>n. line (getPosition content (node_offset n + node_length n)) + 1) node,
             endColumn =
               map_option (\<lambda>n. column (getPosition content (node_offset n + node_length n)) + 1) node \<rparr>)"

text \<open>Decimal rendering of a count inside a message.\<close>

fun digits :: "nat \<Rightarrow> string" where
  "digits n =
     (if n < 10 then [''0123456789'' ! n]
      else digits (n div 10) @ [''0123456789'' ! (n mod 10)])"

declare digits.simps [simp del]

definition startsWith :: "string \<Rightarrow> string \<Rightarrow> bool" where
  "startsWith s p = (take (length p) s = p)"

section \<open>External collaborators\<close>

text \<open>
  The JSON parser, the schema, the tree parser, the file system and the hosting
  environment are inputs of the pipeline. \<open>JSON_parse\<close> throws or returns a value,
  \<open>safeParse\<close> returns the issues of a failure (\<open>Inl\<close>) or the validated data,
  \<open>parseTree\<close> returns a tree or nothing, \<open>readFile\<close> rejects or yields the text.
  Directory reads, file writes and the repository coordinates are taken to succeed.
  \<open>completionOrder\<close> is the order in which the pending reads of one run complete.
\<close>

record ('json, 'data) collaborators =
  join :: "string \<Rightarrow> string \<Rightarrow> string"
  readdirSync :: "string \<Rightarrow> string list"
  readFile :: "string \<Rightarrow> thrown + string"
  JSON_parse :: "string \<Rightarrow> thrown + 'json"
  safeParse :: "'json \<Rightarrow> issue list + 'data"
  parseTree :: "string \<Rightarrow> SyntaxNode option"
  context_repo :: "string \<times> string"
  completionOrder :: "string list \<Rightarrow> string list"

section \<open>The validation pipeline of \<open>run\<close>\<close>

datatype dirent_kind = File | Directory | Other

record Dirent =
  name :: string
  parentPath :: string
  kind :: dirent_kind

record index_entry =
  entry_path :: string
  url :: string

record manifest =
  repository :: string
  manifest_events :: "index_entry list"

datatype artifact = Listing "string list" | Manifest manifest

text \<open>
  \<open>run\<close> is embedded in the form that writes the manifest. The file \<open>src/main.ts\<close> holds
  an earlier form of it, with the same file task after the read (\<open>check_content\<close> below),
  the same final check of the failure count and the same outermost \<open>catch\<close>; it skips
  no hidden entry and writes no manifest.

  The state of one run: the calls made on the sink so far, the failure counter, the
  insertion-ordered map of validated events and the files written.
\<close>

record 'data run_state =
  emitted :: "sink_call list"
  errorCount :: nat
  events :: "(string \<times> 'data) list"
  written :: "(string \<times> artifact) list"

definition emit :: "sink_call \<Rightarrow> 'data run_state \<Rightarrow> 'data run_state" where
  "emit c st = st \<lparr> emitted := emitted st @ [c] \<rparr>"

text \<open>\<open>Map.set\<close>: an existing key keeps its place and takes the new value, a new key goes
  to the end.\<close>

fun map_set :: "(string \<times> 'v) list \<Rightarrow> string \<Rightarrow> 'v \<Rightarrow> (string \<times> 'v) list" where
  "map_set [] k v = [(k, v)]"
| "map_set ((k', v') # kvs) k v =
     (if k' = k then (k, v) # kvs else (k', v') # map_set kvs k v)"

text \<open>
  Each file task runs up to its \<open>await readFile\<close> when it is created: entries whose name
  starts with a dot are skipped, a directory gets its listing written, anything else that
  is not a file is dropped, and a file leaves a pending read of its joined path.
\<close>

datatype task = Settled | AwaitingRead string

definition start_task ::
  "('json, 'data) collaborators \<Rightarrow> Dirent \<Rightarrow> 'data run_state \<Rightarrow> task \<times> 'data run_state" where
  "start_task env dirent st =
     (if startsWith (name dirent) ''.'' then (Settled, st)
      else
        let p = join env (parentPath dirent) (name dirent)
        in if kind dirent \<noteq> File then
             (if kind dirent = Directory then
                (Settled,
                 emit (CoreInfo (''Listed directory: '' @ p))
                   (st \<lparr> written := written st @
                      [(join env p ''.ls'',
                        Listing (filter (\<lambda>x. \<not> startsWith x ''.'') (readdirSync env p)))] \<rparr>))
              else (Settled, st))
           else (AwaitingRead p, st))"

fun start_tasks ::
  "('json, 'data) collaborators \<Rightarrow> Dirent list \<Rightarrow> 'data run_state \<Rightarrow>
   task list \<times> 'data run_state" where
  "start_tasks env [] st = ([], st)"
| "start_tasks env (d # ds) st =
     (case start_task env d st of
        (t, st1) \<Rightarrow> (case start_tasks env ds st1 of (ts, st2) \<Rightarrow> (t # ts, st2)))"

fun pending :: "task list \<Rightarrow> string list" where
  "pending [] = []"
| "pending (Settled # ts) = pending ts"
| "pending (AwaitingRead p # ts) = p # pending ts"

text \<open>
  The rest of a file task, once its text is read: the \<open>try\<close> block around
  \<open>JSON.parse\<close>, \<open>safeParse\<close> and the annotation loop, with its \<open>catch\<close>.
\<close>

definition check_content ::
  "('json, 'data) collaborators \<Rightarrow> string \<Rightarrow> string \<Rightarrow> 'data run_state \<Rightarrow> 'data run_state" where
  "check_content env p content st =
     (case JSON_parse env content of
        Inl e \<Rightarrow>
          emit (CoreError (''Failed to parse JSON in file: '' @ p) (file_only p))
            (st \<lparr> errorCount := errorCount st + 1 \<rparr>)
      | Inr js \<Rightarrow>
          (case safeParse env js of
             Inl issues \<Rightarrow>
               (let st1 = st \<lparr> errorCount := errorCount st + 1 \<rparr>
                in case parseTree env content of
                     None \<Rightarrow> st1
                   | Some json \<Rightarrow>
                       st1 \<lparr> emitted := emitted st1 @ map (annotation p content json) issues \<rparr>)
           | Inr data \<Rightarrow>
               emit (CoreInfo (''Validated event: '' @ p))
                 (st \<lparr> events := map_set (events st) p data \<rparr>)))"

text \<open>
  \<open>await Promise.all\<close>: the pending reads complete one at a time and each task then runs
  to its end without interruption. The first rejected read rejects the whole and control
  leaves the \<open>try\<close> block; the state returned is the one at that moment.
\<close>

fun await_all ::
  "('json, 'data) collaborators \<Rightarrow> string list \<Rightarrow> 'data run_state \<Rightarrow>
   thrown option \<times> 'data run_state" where
  "await_all env [] st = (None, st)"
| "await_all env (p # ps) st =
     (case readFile env p of
        Inl e \<Rightarrow> (Some e, st)
      | Inr content \<Rightarrow> await_all env ps (check_content env p content st))"

definition pagesUrl :: "string \<Rightarrow> string \<Rightarrow> string" where
  "pagesUrl owner repo = ''https://'' @ owner @ ''.github.io/'' @ repo"

definition index_entry_of :: "string \<Rightarrow> string \<Rightarrow> index_entry" where
  "index_entry_of pages p = \<lparr> entry_path = p, url = pages @ ''/events/'' @ p \<rparr>"

text \<open>What follows the \<open>await\<close>: the manifest is written, then the outcome is decided.\<close>

definition finish :: "('json, 'data) collaborators \<Rightarrow> 'data run_state \<Rightarrow> 'data run_state" where
  "finish env st =
     (case context_repo env of
        (owner, repo) \<Rightarrow>
          (let repo_name = owner @ ''/'' @ repo;
               pages = pagesUrl owner repo;
               st1 = emit (CoreInfo (''Pages URL: '' @ pages))
                       (emit (CoreInfo (''Repository: '' @ repo_name)) st);
               st2 = st1 \<lparr> written := written st1 @
                       [(''.index.json'',
                         Manifest \<lparr> repository = repo_name,
                                    manifest_events =
                                      map (\<lambda>(p, d). index_entry_of pages p) (events st1) \<rparr>)] \<rparr>
           in if errorCount st2 > 0 then
                emit (CoreSetFailed
                        (''Event data validation failed for '' @ digits (errorCount st2)
                           @ '' event(s).'')) st2
              else emit (CoreInfo ''Complete'') st2))"

definition initial_state :: "Dirent list \<Rightarrow> 'data run_state" where
  "initial_state files =
     \<lparr> emitted = [CoreInfo ''@deniz-blue/action-events-repo is running'',
                   CoreInfo (''Found '' @ digits (length files) @ '' events.'')],
       errorCount = 0, events = [], written = [] \<rparr>"

text \<open>The \<open>try\<close> block of \<open>run\<close>: the value thrown out of it, if any, and the state
  reached.\<close>

definition run_try ::
  "('json, 'data) collaborators \<Rightarrow> Dirent list \<Rightarrow> thrown option \<times> 'data run_state" where
  "run_try env files =
     (case start_tasks env files (initial_state files) of
        (tasks, st1) \<Rightarrow>
          (case await_all env (completionOrder env (pending tasks)) st1 of
             (Some e, st2) \<Rightarrow> (Some e, st2)
           | (None, st2) \<Rightarrow> (None, finish env st2)))"

text \<open>The outermost \<open>catch\<close>: only an instance of \<open>Error\<close> reaches \<open>setFailed\<close>.\<close>

fun top_level_catch :: "thrown \<Rightarrow> 'data run_state \<Rightarrow> 'data run_state" where
  "top_level_catch (ErrorInstance m) st = emit (CoreSetFailed m) st"
| "top_level_catch (NonError v) st = st"

definition run :: "('json, 'data) collaborators \<Rightarrow> Dirent list \<Rightarrow> 'data run_state" where
  "run env files =
     (case run_try env files of
        (Some e, st) \<Rightarrow> top_level_catch e st
      | (None, st) \<Rightarrow> st)"

definition failed :: "sink_call list \<Rightarrow> bool" where
  "failed calls = list_ex is_setFailed calls"

section \<open>The validation task \<open>checkEvents\<close>\<close>

text \<open>The reason of a rejected file task: one of the two error classes of the task, or
  any other thrown value.\<close>

datatype reason =
    SchemaValidationError string "issue list" string
  | JSONParseError string thrown
  | Unexpected thrown

text \<open>
  One file task. It has no \<open>await\<close>, so the tasks run one after the other in the order
  of the files; each either fulfils, after at most one call on the sink, or rejects.
  The text is read with \<open>readFileSync\<close>, which throws where \<open>readFile\<close> rejects.
\<close>

definition check_task ::
  "('json, 'data) collaborators \<Rightarrow> string \<Rightarrow> string \<Rightarrow> reason option \<times> sink_call list" where
  "check_task env dir f =
     (if startsWith f ''.'' then (None, [])
      else
        let p = join env dir f
        in case readFile env p of
             Inl e \<Rightarrow> (Some (Unexpected e), [])
           | Inr content \<Rightarrow>
               (case JSON_parse env content of
                  Inl e \<Rightarrow> (Some (JSONParseError p e), [])
                | Inr js \<Rightarrow>
                    (case safeParse env js of
                       Inl issues \<Rightarrow> (Some (SchemaValidationError p issues content), [])
                     | Inr data \<Rightarrow> (None, [CoreInfo (''Validated event: '' @ p)]))))"

text \<open>The two \<open>annotate\<close> methods, and the body of the loop over the rejected tasks,
  which calls them or reports any other thrown value without a file.\<close>

definition SchemaValidationError_annotate ::
  "('json, 'data) collaborators \<Rightarrow> string \<Rightarrow> issue list \<Rightarrow> string \<Rightarrow> sink_call list" where
  "SchemaValidationError_annotate env p issues content =
     (case parseTree env content of
        None \<Rightarrow> []
      | Some json \<Rightarrow> map (annotation p content json) issues)"

definition JSONParseError_annotate :: "string \<Rightarrow> sink_call list" where
  "JSONParseError_annotate p = [CoreError ''Invalid JSON file!'' (file_only p)]"

fun report :: "('json, 'data) collaborators \<Rightarrow> reason \<Rightarrow> sink_call list" where
  "report env (SchemaValidationError p issues content) =
     SchemaValidationError_annotate env p issues content"
| "report env (JSONParseError p e) = JSONParseError_annotate p"
| "report env (Unexpected e) =
     [CoreError (''Unexpected error: '' @ (case e of ErrorInstance m \<Rightarrow> m | NonError v \<Rightarrow> v))
        no_properties]"

definition rejections ::
  "('json, 'data) collaborators \<Rightarrow> string \<Rightarrow> string list \<Rightarrow> reason list" where
  "rejections env dir files =
     concat (map (\<lambda>f. case fst (check_task env dir f) of None \<Rightarrow> [] | Some r \<Rightarrow> [r]) files)"

definition checkEvents ::
  "('json, 'data) collaborators \<Rightarrow> string \<Rightarrow> string list \<Rightarrow> sink_call list" where
  "checkEvents env dir files =
     (let errors = rejections env dir files
      in concat (map (\<lambda>f. snd (check_task env dir f)) files)
         @ concat (map (report env) errors)
         @ (if length errors > 0 then
              [CoreSetFailed (''Validation failed for '' @ digits (length errors) @ '' file(s)!'')]
            else []))"

section \<open>Auxiliary notions for the statements\<close>

text \<open>The number of line breaks among the first \<open>n\<close> code units of a text.\<close>

definition count_before :: "string \<Rightarrow> nat \<Rightarrow> nat" where
  "count_before text n = length (filter (\<lambda>c. c = LF) (take n text))"

text \<open>The index of the last line break among the first \<open>n\<close> code units, or \<open>-1\<close>
  when there is none: the greatest index below \<open>n\<close> that holds a line break.\<close>

definition last_break_before :: "string \<Rightarrow> nat \<Rightarrow> int" where
  "last_break_before text n =
     (case filter (\<lambda>i. text ! i = LF) (rev [0..<n]) of [] \<Rightarrow> - 1 | i # rest \<Rightarrow> int i)"

text \<open>A pending read that ends in a validated event, and one that ends in a counted
  failure (the text is read, and parsing or the schema rejects it).\<close>

definition validates :: "('json, 'data) collaborators \<Rightarrow> string \<Rightarrow> bool" where
  "validates env p =
     (case readFile env p of
        Inl e \<Rightarrow> False
      | Inr content \<Rightarrow>
          (case JSON_parse env content of
             Inl e \<Rightarrow> False
           | Inr js \<Rightarrow> (case safeParse env js of Inl issues \<Rightarrow> False | Inr data \<Rightarrow> True)))"

definition fails :: "('json, 'data) collaborators \<Rightarrow> string \<Rightarrow> bool" where
  "fails env p =
     (case readFile env p of
        Inl e \<Rightarrow> False
      | Inr content \<Rightarrow>
          (case JSON_parse env content of
             Inl e \<Rightarrow> True
           | Inr js \<Rightarrow> (case safeParse env js of Inl issues \<Rightarrow> True | Inr data \<Rightarrow> False)))"

text \<open>The paths whose reads a run awaits: the files among the entries, hidden names
  left out, each joined with its parent path.\<close>

definition read_paths :: "('json, 'data) collaborators \<Rightarrow> Dirent list \<Rightarrow> string list" where
  "read_paths env files =
     map (\<lambda>d. join env (parentPath d) (name d))
       (filter (\<lambda>d. \<not> startsWith (name d) ''.'' \<and> kind d = File) files)"

definition error_messages :: "sink_call list \<Rightarrow> string list" where
  "error_messages calls =
     concat (map (\<lambda>c. case c of CoreError m a \<Rightarrow> [m] | _ \<Rightarrow> []) calls)"

subsection \<open>A sample repository\<close>

text \<open>
  A two-line document whose schema check reports one issue at an existing array element
  and one at a missing key, a text that does not parse, a text that validates, and two
  reads that are rejected, one with an \<open>Error\<close> and one with another value. The reads
  complete in the reverse of the order in which they were started.
\<close>

definition demo_doc :: string where
  "demo_doc = ''[10,'' @ [LF] @ '' 20]''"

definition demo_tree :: SyntaxNode where
  "demo_tree = ArrayNode 0 9 [ValueNode 1 2, ValueNode 6 2]"

definition demo_issues :: "issue list" where
  "demo_issues =
     [\<lparr> path = [Index 1], message = ''Expected string'' \<rparr>,
      \<lparr> path = [Key ''name''], message = ''Required'' \<rparr>]"

definition demo_env :: "(string, string) collaborators" where
  "demo_env =
     \<lparr> join = (\<lambda>a b. a @ ''/'' @ b),
       readdirSync = (\<lambda>d. [''b.json'', ''.ls'']),
       readFile = (\<lambda>p. if p = ''a/b.json'' then Inr ''7''
                       else if p = ''a/bad.json'' then Inr ''[''
                       else if p = ''a/odd.json'' then Inr demo_doc
                       else if p = ''a/locked.json'' then Inl (ErrorInstance ''EACCES'')
                       else Inl (NonError ''gone'')),
       JSON_parse = (\<lambda>c. if c = ''['' then Inl (ErrorInstance ''Unexpected end of JSON input'')
                         else Inr c),
       safeParse = (\<lambda>js. if js = ''7'' then Inr js else Inl demo_issues),
       parseTree = (\<lambda>c. if c = demo_doc then Some demo_tree else None),
       context_repo = (''owner'', ''repo''),
       completionOrder = rev \<rparr>"

definition demo_files :: "Dirent list" where
  "demo_files =
     [\<lparr> name = ''b.json'', parentPath = ''a'', kind = File \<rparr>,
      \<lparr> name = ''.hidden.json'', parentPath = ''a'', kind = File \<rparr>,
      \<lparr> name = ''bad.json'', parentPath = ''a'', kind = File \<rparr>,
      \<lparr> name = ''odd.json'', parentPath = ''a'', kind = File \<rparr>,
      \<lparr> name = ''dir.json'', parentPath = ''a'', kind = Directory \<rparr>]"

definition empty_state :: "string run_state" where
  "empty_state = \<lparr> emitted = [], errorCount = 0, events = [], written = [] \<rparr>"

section \<open>Properties of the position resolver\<close>

lemma split_from_length: "length (split_from sep cur s) = Suc (length (filter (\<lambda>c. c = sep) s))"
  by (induction s arbitrary: cur) auto

lemma js_slice_prefix: "0 \<le> offset \<Longrightarrow> js_slice text 0 offset = take (nat offset) text"
  by (simp add: js_slice_def Let_def min_def)

lemma getPosition_line:
  "0 \<le> offset \<Longrightarrow> line (getPosition text offset) = int (count_before text (nat offset))"
  by (simp add: getPosition_def js_slice_prefix js_split_def split_from_length count_before_def)

lemma count_before_Suc:
  "n < length text \<Longrightarrow>
   count_before text (Suc n) = count_before text n + (if text ! n = LF then 1 else 0)"
  by (simp add: count_before_def take_Suc_conv_app_nth)

lemma count_before_mono: "m \<le> n \<Longrightarrow> n \<le> length text \<Longrightarrow> count_before text m \<le> count_before text n"
proof (induction n)
  case 0
  then show ?case by simp
next
  case (Suc n)
  show ?case
  proof (cases "m = Suc n")
    case True
    then show ?thesis by simp
  next
    case False
    with Suc.prems have "m \<le> n" "n < length text" by simp_all
    with Suc.IH have "count_before text m \<le> count_before text n" by simp
    with \<open>n < length text\<close> show ?thesis by (simp add: count_before_Suc)
  qed
qed

lemma count_before_eq_no_LF:
  "m \<le> n \<Longrightarrow> n \<le> length text \<Longrightarrow> count_before text m = count_before text n \<Longrightarrow>
   m \<le> i \<Longrightarrow> i < n \<Longrightarrow> text ! i \<noteq> LF"
proof (induction n)
  case 0
  then show ?case by simp
next
  case (Suc n)
  from Suc.prems have n: "n < length text" "m \<le> n" by simp_all
  have le: "count_before text m \<le> count_before text n"
    using count_before_mono [of m n "text"] n by simp
  have step: "count_before text (Suc n) = count_before text n + (if text ! n = LF then 1 else 0)"
    using n by (simp add: count_before_Suc)
  from Suc.prems(3) le step have eq: "count_before text m = count_before text n" and nn: "text ! n \<noteq> LF"
    by (auto split: if_splits)
  show ?case
  proof (cases "i = n")
    case True
    with nn show ?thesis by simp
  next
    case False
    with Suc.prems have "i < n" by simp
    with Suc.IH [OF n(2) _ eq Suc.prems(4)] n show ?thesis by simp
  qed
qed

lemma last_from_skip:
  "m \<le> n \<Longrightarrow> (\<And>i. m < i \<Longrightarrow> i \<le> n \<Longrightarrow> s ! i \<noteq> c) \<Longrightarrow> last_from s c n = last_from s c m"
proof (induction n)
  case 0
  then show ?case by simp
next
  case (Suc n)
  show ?case
  proof (cases "m = Suc n")
    case True
    then show ?thesis by simp
  next
    case False
    with Suc.prems(1) have mn: "m \<le> n" by simp
    have "s ! Suc n \<noteq> c" using Suc.prems(2) [of "Suc n"] mn by simp
    moreover have "last_from s c n = last_from s c m"
      using Suc.IH [OF mn] Suc.prems(2) by simp
    ultimately show ?thesis by simp
  qed
qed

lemma last_from_none: "(\<And>i. i \<le> n \<Longrightarrow> s ! i \<noteq> c) \<Longrightarrow> last_from s c n = - 1"
  by (induction n) auto

lemma js_lastIndexOf_inside:
  "1 \<le> offset \<Longrightarrow> offset \<le> int (length s) \<Longrightarrow>
   js_lastIndexOf s c (offset - 1) = last_from s c (nat offset - 1)"
proof -
  assume a: "1 \<le> offset" "offset \<le> int (length s)"
  then have "min (max (offset - 1) 0) (int (length s) - 1) = offset - 1" by simp
  moreover have "nat (offset - 1) = nat offset - 1" by (simp add: nat_diff_distrib')
  ultimately show ?thesis using a by (simp add: js_lastIndexOf_def Let_def)
qed

lemma getPosition_column_inside:
  "1 \<le> offset \<Longrightarrow> offset \<le> int (length text) \<Longrightarrow>
   column (getPosition text offset) = offset - last_from text LF (nat offset - 1) - 1"
  by (simp add: getPosition_def js_lastIndexOf_inside)

lemma getPosition_column_zero:
  "column (getPosition text 0) = (if text \<noteq> [] \<and> hd text = LF then - 1 else 0)"
  by (cases "text") (simp_all add: getPosition_def js_lastIndexOf_def)

lemma getPosition_mono:
  assumes "0 \<le> o1" "o1 \<le> o2" "o2 \<le> int (length text)"
  shows "pos_le (getPosition text o1) (getPosition text o2)"
proof -
  let ?m = "nat o1" and ?n = "nat o2"
  have mn: "?m \<le> ?n" "?n \<le> length text" using assms by simp_all
  have l1: "line (getPosition text o1) = int (count_before text ?m)"
    and l2: "line (getPosition text o2) = int (count_before text ?n)"
    using assms by (simp_all add: getPosition_line)
  have le: "count_before text ?m \<le> count_before text ?n"
    using count_before_mono [OF mn] .
  show ?thesis
  proof (cases "count_before text ?m = count_before text ?n")
    case False
    with le l1 l2 show ?thesis by (simp add: pos_le_def)
  next
    case True
    have noLF: "\<And>i. ?m \<le> i \<Longrightarrow> i < ?n \<Longrightarrow> text ! i \<noteq> LF"
      using count_before_eq_no_LF [OF mn True] .
    have "column (getPosition text o1) \<le> column (getPosition text o2)"
    proof (cases "o1 = o2")
      case True
      then show ?thesis by simp
    next
      case ne: False
      with assms have o2: "1 \<le> o2" by simp
      have c2: "column (getPosition text o2) = o2 - last_from text LF (?n - 1) - 1"
        using getPosition_column_inside [OF o2 assms(3)] .
      show ?thesis
      proof (cases "o1 = 0")
        case True
        have "text ! 0 \<noteq> LF" using noLF [of 0] True o2 by simp
        moreover have "text \<noteq> []" using assms o2 by auto
        ultimately have c1: "column (getPosition text o1) = 0"
          using True by (simp add: getPosition_column_zero hd_conv_nth)
        have "last_from text LF (?n - 1) = - 1"
        proof (rule last_from_none)
          fix i assume "i \<le> ?n - 1"
          with o2 have "i < ?n" by simp
          with noLF [of i] True show "text ! i \<noteq> LF" by simp
        qed
        with c1 c2 o2 show ?thesis by simp
      next
        case False
        with assms have o1: "1 \<le> o1" by simp
        have c1: "column (getPosition text o1) = o1 - last_from text LF (?m - 1) - 1"
          using getPosition_column_inside [OF o1] assms by simp
        have "last_from text LF (?n - 1) = last_from text LF (?m - 1)"
          using mn o1 noLF by (intro last_from_skip) simp_all
        with c1 c2 assms show ?thesis by simp
      qed
    qed
    with True l1 l2 show ?thesis by (simp add: pos_le_def)
  qed
qed

subsection \<open>Where the resolver meets its description\<close>

text \<open>
  Away from offset 0 of a text that starts with a line break, the column is the offset
  minus the index of the last line break before it minus one, and the offset is rebuilt
  from the position and the line lengths.
\<close>

lemma last_break_before_0: "last_break_before s 0 = - 1"
  by (simp add: last_break_before_def)

lemma last_break_before_Suc:
  "last_break_before s (Suc n) = (if s ! n = LF then int n else last_break_before s n)"
  by (simp add: last_break_before_def)

lemma last_from_last_break: "last_from s LF n = last_break_before s (Suc n)"
  by (induction n) (simp_all add: last_break_before_Suc last_break_before_0)

lemma getPosition_column_formula:
  assumes "0 \<le> offset" "offset \<le> int (length s)" "\<not> (offset = 0 \<and> s \<noteq> [] \<and> hd s = LF)"
  shows "column (getPosition s offset) = offset - last_break_before s (nat offset) - 1"
proof (cases "offset = 0")
  case True
  with assms(3) show ?thesis
    by (auto simp: getPosition_column_zero last_break_before_0)
next
  case False
  with assms have o: "1 \<le> offset" by simp
  then obtain n where n: "nat offset = Suc n" by (cases "nat offset") auto
  show ?thesis
    using getPosition_column_inside [OF o assms(2)] n by (simp add: last_from_last_break)
qed

lemma split_from_nonempty: "split_from sep cur s \<noteq> []"
  by (induction s arbitrary: cur) auto

lemma split_from_append:
  "split_from sep cur (xs @ ys) =
     butlast (split_from sep cur xs) @ split_from sep (rev (last (split_from sep cur xs))) ys"
  by (induction xs arbitrary: cur) (simp_all add: split_from_nonempty)

lemma split_from_sum:
  "sum_list (map (\<lambda>l. int (length l) + 1) (split_from sep cur s)) =
     int (length cur) + int (length s) + 1"
  by (induction s arbitrary: cur) auto

lemma last_line_length:
  "n \<le> length s \<Longrightarrow>
   int (length (last (split_from LF [] (take n s)))) = int n - last_break_before s n - 1"
proof (induction n)
  case 0
  then show ?case by (simp add: last_break_before_0)
next
  case (Suc n)
  then have n: "n < length s" by simp
  let ?pre = "split_from LF [] (take n s)"
  have tk: "take (Suc n) s = take n s @ [s ! n]" using n by (simp add: take_Suc_conv_app_nth)
  have sp: "split_from LF [] (take (Suc n) s) =
      butlast ?pre @ split_from LF (rev (last ?pre)) [s ! n]"
    unfolding tk by (rule split_from_append)
  have ih: "int (length (last ?pre)) = int n - last_break_before s n - 1"
    using Suc.IH n by simp
  show ?case
  proof (cases "s ! n = LF")
    case True
    then show ?thesis by (simp add: sp last_break_before_Suc)
  next
    case False
    then show ?thesis using ih by (simp add: sp last_break_before_Suc)
  qed
qed

lemma take_lines_prefix:
  "n \<le> length s \<Longrightarrow>
   take (count_before s n) (split_from LF [] s) = butlast (split_from LF [] (take n s))"
proof -
  assume "n \<le> length s"
  let ?pre = "split_from LF [] (take n s)"
  have "split_from LF [] s = split_from LF [] (take n s @ drop n s)" by simp
  also have "\<dots> = butlast ?pre @ split_from LF (rev (last ?pre)) (drop n s)"
    by (rule split_from_append)
  finally have sp: "split_from LF [] s = butlast ?pre @ split_from LF (rev (last ?pre)) (drop n s)" .
  have "length (butlast ?pre) = count_before s n"
    by (simp add: split_from_length count_before_def)
  then show ?thesis by (subst sp) simp
qed

lemma lines_before_sum:
  assumes "n \<le> length s"
  shows "sum_list (map (\<lambda>k. k + 1) (take (count_before s n) (line_lengths s))) =
    last_break_before s n + 1"
proof -
  let ?pre = "split_from LF [] (take n s)"
  have ne: "?pre \<noteq> []" by (rule split_from_nonempty)
  have "take (count_before s n) (line_lengths s) =
      map (\<lambda>l. int (length l)) (butlast ?pre)"
    using take_lines_prefix [OF assms] by (simp add: line_lengths_def js_split_def take_map)
  then have "sum_list (map (\<lambda>k. k + 1) (take (count_before s n) (line_lengths s))) =
      sum_list (map (\<lambda>l. int (length l) + 1) (butlast ?pre))"
    by (simp add: comp_def)
  also have "\<dots> = sum_list (map (\<lambda>l. int (length l) + 1) ?pre) - (int (length (last ?pre)) + 1)"
  proof -
    have "?pre = butlast ?pre @ [last ?pre]" using ne by simp
    then have "sum_list (map (\<lambda>l. int (length l) + 1) ?pre) =
        sum_list (map (\<lambda>l. int (length l) + 1) (butlast ?pre @ [last ?pre]))"
      by simp
    then show ?thesis by simp
  qed
  also have "\<dots> = (int (length (take n s)) + 1) - (int n - last_break_before s n - 1 + 1)"
    using last_line_length [OF assms] by (simp add: split_from_sum)
  also have "\<dots> = last_break_before s n + 1" using assms by simp
  finally show ?thesis .
qed

lemma getPosition_round_trip:
  assumes "0 \<le> offset" "offset \<le> int (length s)" "\<not> (offset = 0 \<and> s \<noteq> [] \<and> hd s = LF)"
  shows "offset_of s (getPosition s offset) = offset"
proof -
  have l: "line (getPosition s offset) = int (count_before s (nat offset))"
    using assms(1) by (rule getPosition_line)
  have c: "column (getPosition s offset) = offset - last_break_before s (nat offset) - 1"
    using assms by (rule getPosition_column_formula)
  have "nat offset \<le> length s" using assms by simp
  from lines_before_sum [OF this] l c assms(1) show ?thesis
    by (simp add: offset_of_def)
qed

section \<open>Properties of the pipeline\<close>

lemma annotation_not_setFailed: "\<not> is_setFailed (annotation p content json i)"
  by (simp add: annotation_def Let_def)

lemma filter_annotations: "filter is_setFailed (map (annotation p content json) issues) = []"
  by (induction issues) (simp_all add: annotation_not_setFailed)

lemma check_content_setFailed:
  "filter is_setFailed (emitted (check_content env p content st)) = filter is_setFailed (emitted st)"
  by (simp add: check_content_def emit_def Let_def filter_annotations
      split: sum.splits option.splits)

lemma start_task_setFailed:
  "filter is_setFailed (emitted (snd (start_task env d st))) = filter is_setFailed (emitted st)"
  by (simp add: start_task_def emit_def Let_def)

lemma start_task_count: "errorCount (snd (start_task env d st)) = errorCount st"
  by (simp add: start_task_def emit_def Let_def)

lemma start_task_events: "events (snd (start_task env d st)) = events st"
  by (simp add: start_task_def emit_def Let_def)

lemma start_tasks_setFailed:
  "filter is_setFailed (emitted (snd (start_tasks env ds st))) = filter is_setFailed (emitted st)"
proof (induction ds arbitrary: st)
  case Nil
  then show ?case by simp
next
  case (Cons d ds)
  obtain t st1 where s1: "start_task env d st = (t, st1)" by (cases "start_task env d st")
  obtain ts st2 where s2: "start_tasks env ds st1 = (ts, st2)" by (cases "start_tasks env ds st1")
  have "filter is_setFailed (emitted st2) = filter is_setFailed (emitted st1)"
    using Cons.IH [of st1] s2 by simp
  also have "\<dots> = filter is_setFailed (emitted st)"
    using start_task_setFailed [of env d st] s1 by simp
  finally show ?case using s1 s2 by simp
qed

lemma start_tasks_count: "errorCount (snd (start_tasks env ds st)) = errorCount st"
proof (induction ds arbitrary: st)
  case Nil
  then show ?case by simp
next
  case (Cons d ds)
  obtain t st1 where s1: "start_task env d st = (t, st1)" by (cases "start_task env d st")
  obtain ts st2 where s2: "start_tasks env ds st1 = (ts, st2)" by (cases "start_tasks env ds st1")
  have "errorCount st2 = errorCount st1" using Cons.IH [of st1] s2 by simp
  also have "\<dots> = errorCount st" using start_task_count [of env d st] s1 by simp
  finally show ?case using s1 s2 by simp
qed

lemma start_tasks_events: "events (snd (start_tasks env ds st)) = events st"
proof (induction ds arbitrary: st)
  case Nil
  then show ?case by simp
next
  case (Cons d ds)
  obtain t st1 where s1: "start_task env d st = (t, st1)" by (cases "start_task env d st")
  obtain ts st2 where s2: "start_tasks env ds st1 = (ts, st2)" by (cases "start_tasks env ds st1")
  have "events st2 = events st1" using Cons.IH [of st1] s2 by simp
  also have "\<dots> = events st" using start_task_events [of env d st] s1 by simp
  finally show ?case using s1 s2 by simp
qed

lemma await_all_setFailed:
  "filter is_setFailed (emitted (snd (await_all env ps st))) = filter is_setFailed (emitted st)"
  by (induction ps arbitrary: st) (simp_all add: check_content_setFailed split: sum.splits)

lemma check_content_count:
  "readFile env p = Inr content \<Longrightarrow>
   errorCount (check_content env p content st) = errorCount st + (if fails env p then 1 else 0)"
  by (simp add: check_content_def fails_def emit_def Let_def split: sum.splits option.splits)

lemma await_all_count:
  "fst (await_all env ps st) = None \<Longrightarrow>
   errorCount (snd (await_all env ps st)) = errorCount st + length (filter (fails env) ps)"
proof (induction ps arbitrary: st)
  case Nil
  then show ?case by simp
next
  case (Cons p ps)
  then obtain content where r: "readFile env p = Inr content"
    by (cases "readFile env p") simp_all
  with Cons.prems have "fst (await_all env ps (check_content env p content st)) = None" by simp
  from Cons.IH [OF this] r show ?case by (simp add: check_content_count)
qed

lemma map_set_keys: "fst ` set (map_set kvs k v) = insert k (fst ` set kvs)"
proof (induction kvs)
  case Nil
  then show ?case by simp
next
  case (Cons kv kvs)
  obtain k' v' where kv: "kv = (k', v')" by (cases kv)
  show ?case
  proof (cases "k' = k")
    case True
    with kv show ?thesis by simp
  next
    case False
    with kv Cons.IH show ?thesis by (simp add: insert_commute)
  qed
qed

lemma map_set_distinct: "distinct (map fst kvs) \<Longrightarrow> distinct (map fst (map_set kvs k v))"
proof (induction kvs)
  case Nil
  then show ?case by simp
next
  case (Cons kv kvs)
  obtain k' v' where kv: "kv = (k', v')" by (cases kv)
  show ?case
  proof (cases "k' = k")
    case True
    with Cons.prems kv show ?thesis by simp
  next
    case False
    have "k' \<notin> fst ` set (map_set kvs k v)"
      using Cons.prems kv False by (simp add: map_set_keys)
    with Cons kv False show ?thesis by simp
  qed
qed

lemma check_content_keys:
  "readFile env p = Inr content \<Longrightarrow>
   fst ` set (events (check_content env p content st)) =
     (if validates env p then insert p (fst ` set (events st)) else fst ` set (events st))"
  by (simp add: check_content_def validates_def emit_def Let_def map_set_keys
      split: sum.splits option.splits)

lemma check_content_distinct:
  "distinct (map fst (events st)) \<Longrightarrow> distinct (map fst (events (check_content env p content st)))"
  by (simp add: check_content_def emit_def Let_def map_set_distinct split: sum.splits option.splits)

lemma await_all_keys:
  "fst (await_all env ps st) = None \<Longrightarrow>
   fst ` set (events (snd (await_all env ps st))) =
     fst ` set (events st) \<union> {p \<in> set ps. validates env p}"
proof (induction ps arbitrary: st)
  case Nil
  then show ?case by simp
next
  case (Cons p ps)
  then obtain content where r: "readFile env p = Inr content"
    by (cases "readFile env p") simp_all
  with Cons.prems have "fst (await_all env ps (check_content env p content st)) = None" by simp
  from Cons.IH [OF this] r show ?case by (auto simp: check_content_keys)
qed

lemma await_all_distinct:
  "distinct (map fst (events st)) \<Longrightarrow> distinct (map fst (events (snd (await_all env ps st))))"
  by (induction ps arbitrary: st) (simp_all add: check_content_distinct split: sum.splits)

text \<open>The steps that cannot be resolved: a key the object does not have, an index
  outside the array, and a step of the wrong kind for the node.\<close>

lemma descend_unresolved:
  "descend (ObjectNode off len kvs) (Key k) = None \<longleftrightarrow> k \<notin> fst ` set kvs"
  "descend (ArrayNode off len cs) (Index i) = None \<longleftrightarrow> i < 0 \<or> int (length cs) \<le> i"
  "descend (ObjectNode off len kvs) (Index i) = None"
  "descend (ArrayNode off len cs) (Key k) = None"
  "descend (ValueNode off len) s = None"
  by (auto simp: map_of_eq_None_iff)

lemma findNodeAtLocation_append:
  "findNodeAtLocation n (xs @ ys) =
     (case findNodeAtLocation n xs of None \<Rightarrow> None | Some c \<Rightarrow> findNodeAtLocation c ys)"
  by (induction xs arbitrary: n) (simp_all split: option.splits)

lemma demo_positions:
  "getPosition demo_doc 6 = \<lparr> line = 1, column = 1 \<rparr>"
  "getPosition demo_doc 8 = \<lparr> line = 1, column = 3 \<rparr>"
  by (simp_all add: demo_doc_def LF_def getPosition_def js_slice_def js_split_def
      js_lastIndexOf_def eval_nat_numeral)

subsection \<open>The structure of a run\<close>

lemma pending_start_tasks: "pending (fst (start_tasks env ds st)) = read_paths env ds"
proof (induction ds arbitrary: st)
  case Nil
  then show ?case by (simp add: read_paths_def)
next
  case (Cons d ds)
  obtain t st1 where s1: "start_task env d st = (t, st1)" by (cases "start_task env d st")
  obtain ts st2 where s2: "start_tasks env ds st1 = (ts, st2)" by (cases "start_tasks env ds st1")
  have ih: "pending ts = read_paths env ds" using Cons.IH [of st1] s2 by simp
  have "pending (t # ts) = read_paths env (d # ds)"
    using s1 ih by (auto simp: start_task_def read_paths_def Let_def split: if_splits)
  with s1 s2 show ?case by simp
qed

lemma run_try_cases:
  obtains (rejected) e st1 st2 where
      "start_tasks env files (initial_state files) = (fst (start_tasks env files (initial_state files)), st1)"
      "await_all env (completionOrder env (read_paths env files)) st1 = (Some e, st2)"
      "run_try env files = (Some e, st2)"
    | (fulfilled) st1 st2 where
      "st1 = snd (start_tasks env files (initial_state files))"
      "await_all env (completionOrder env (read_paths env files)) st1 = (None, st2)"
      "run_try env files = (None, finish env st2)"
proof -
  obtain ts st1 where s1: "start_tasks env files (initial_state files) = (ts, st1)"
    by (cases "start_tasks env files (initial_state files)")
  have ts: "pending ts = read_paths env files"
    using pending_start_tasks [of env files "initial_state files"] s1 by simp
  obtain r st2 where s2: "await_all env (completionOrder env (read_paths env files)) st1 = (r, st2)"
    by (cases "await_all env (completionOrder env (read_paths env files)) st1")
  show thesis
  proof (cases r)
    case None
    with s1 s2 ts show ?thesis by (intro fulfilled [of st1 st2]) (simp_all add: run_try_def)
  next
    case (Some e)
    with s1 s2 ts show ?thesis by (intro rejected [of st1 e st2]) (simp_all add: run_try_def)
  qed
qed

lemma started_state:
  fixes env :: "('json, 'data) collaborators"
  assumes "st1 = snd (start_tasks env files (initial_state files))"
  shows "filter is_setFailed (emitted st1) = []" "errorCount st1 = 0" "events st1 = []"
proof -
  let ?st0 = "initial_state files :: 'data run_state"
  show "filter is_setFailed (emitted st1) = []"
    using start_tasks_setFailed [of env files ?st0] assms by (simp add: initial_state_def)
  show "errorCount st1 = 0"
    using start_tasks_count [of env files ?st0] assms by (simp add: initial_state_def)
  show "events st1 = []"
    using start_tasks_events [of env files ?st0] assms by (simp add: initial_state_def)
qed



lemma finish_written:
  "written (finish env st) =
     written st @
       [(''.index.json'',
         Manifest \<lparr> repository = fst (context_repo env) @ ''/'' @ snd (context_repo env),
                    manifest_events =
                      map (\<lambda>kv. index_entry_of (pagesUrl (fst (context_repo env)) (snd (context_repo env))) (fst kv))
                        (events st) \<rparr>)]"
  by (simp add: finish_def emit_def Let_def case_prod_unfold split: prod.splits)

lemma fulfilled_run:
  fixes env :: "('json, 'data) collaborators"
  assumes "fst (run_try env files) = None"
  obtains st2 where
    "run env files = finish env st2"
    "filter is_setFailed (emitted st2) = []"
    "errorCount st2 = length (filter (fails env) (completionOrder env (read_paths env files)))"
    "distinct (map fst (events st2))"
    "fst ` set (events st2) =
       {p \<in> set (completionOrder env (read_paths env files)). validates env p}"
proof (cases rule: run_try_cases [of env files])
  case (rejected e st1 st2)
  with assms show ?thesis by simp
next
  case (fulfilled st1 st2)
  let ?ps = "completionOrder env (read_paths env files)"
  have n: "fst (await_all env ?ps st1) = None" and s: "snd (await_all env ?ps st1) = st2"
    using fulfilled(2) by simp_all
  note st1 = started_state [OF fulfilled(1)]
  have a: "run env files = finish env st2" using fulfilled(3) by (simp add: run_def)
  have b: "filter is_setFailed (emitted st2) = []"
    using await_all_setFailed [of env ?ps st1] s st1(1) by simp
  have c: "errorCount st2 = length (filter (fails env) ?ps)"
    using await_all_count [OF n] s st1(2) by simp
  have d: "distinct (map fst (events st2))"
    using await_all_distinct [of st1 env ?ps] s st1(3) by simp
  have e: "fst ` set (events st2) = {p \<in> set ?ps. validates env p}"
    using await_all_keys [OF n] s st1(3) by simp
  from a b c d e show ?thesis by (rule that)
qed

lemma rejected_run:
  fixes env :: "('json, 'data) collaborators"
  assumes "fst (run_try env files) = Some e"
  shows "run env files = top_level_catch e (snd (run_try env files))"
    and "filter is_setFailed (emitted (snd (run_try env files))) = []"
proof -
  show "run env files = top_level_catch e (snd (run_try env files))"
    using assms by (cases "run_try env files") (simp add: run_def)
  show "filter is_setFailed (emitted (snd (run_try env files))) = []"
  proof (cases rule: run_try_cases [of env files])
    case (rejected e' st1 st2)
    let ?st0 = "initial_state files :: 'data run_state"
    let ?ps = "completionOrder env (read_paths env files)"
    have "st1 = snd (start_tasks env files ?st0)" using rejected(1) by (metis snd_conv)
    from started_state(1) [OF this] have "filter is_setFailed (emitted st1) = []" .
    moreover have "snd (await_all env ?ps st1) = st2" using rejected(2) by simp
    ultimately have "filter is_setFailed (emitted st2) = []"
      using await_all_setFailed [of env ?ps st1] by simp
    with rejected(3) show ?thesis by simp
  next
    case (fulfilled st1 st2)
    with assms show ?thesis by simp
  qed
qed

lemma failed_filter: "failed calls \<longleftrightarrow> filter is_setFailed calls \<noteq> []"
  by (simp add: failed_def list_ex_iff filter_empty_conv)

subsection \<open>The outcome of \<open>checkEvents\<close>\<close>





lemma digits_1: "digits (Suc 0) = ''1''"
  by (simp add: digits.simps [of "Suc 0"])


section \<open>The claims\<close>

text \<open>
  C1: for every text and every offset between 0 and the length of the text,
  \<open>getPosition\<close> returns the number of line breaks before the offset as its line, and the
  offset minus the index of the last line break before it (or minus \<open>-1\<close>) minus one as
  its column; at offset 0 this is line 0 and column 0, also for a text that starts with a
  line break. The code does not do this for a text that starts with a line break: at
  offset 0 the search for the last line break starts at position \<open>-1\<close>, which
  \<open>lastIndexOf\<close> takes as position 0, where it finds the leading line break, and the
  column comes out as \<open>-1\<close>.
\<close>

theorem getPosition_leading_newline:
  "getPosition (LF # rest) 0 = \<lparr> line = 0, column = - 1 \<rparr>"
  by (simp add: getPosition_def js_slice_def js_split_def js_lastIndexOf_def)

text \<open>
  C2: for every offset between 0 and the length of the text, the line returned by
  \<open>getPosition\<close> is the number of line breaks strictly before the offset, and the offset
  rebuilt from the returned line and column and the lengths of the lines of the text is
  the offset itself. For a text that starts with a line break and offset 0 the line is 0,
  as claimed, and the rebuilt offset is \<open>-1\<close>.
\<close>

theorem getPosition_round_trip_leading_newline:
  "line (getPosition (LF # rest) 0) = 0 \<and> offset_of (LF # rest) (getPosition (LF # rest) 0) = - 1"
  by (simp add: getPosition_def js_slice_def js_split_def js_lastIndexOf_def offset_of_def)

text \<open>
  C3: when the path of an issue contains a step that cannot be resolved in the parsed
  tree (a missing key, an index out of range, a step of the wrong kind for the node),
  the locator returns no node, the diagnostic of that issue carries the message and the
  file and no start or end position, and the issues before and after it are reported as
  usual, in \<open>run\<close> as in \<open>SchemaValidationError.annotate\<close>.
\<close>

theorem unresolved_step_file_level:
  assumes "path i = pre @ s # post"
    and "findNodeAtLocation json pre = Some n"
    and "descend n s = None"
    and "JSON_parse env content = Inr js"
    and "safeParse env js = Inl (before @ i # after)"
    and "parseTree env content = Some json"
  shows "findNodeAtLocation json (path i) = None
    \<and> annotation p content json i =
        CoreError (message i)
          \<lparr> file = Some p, startLine = None, startColumn = None, endLine = None, endColumn = None \<rparr>
    \<and> emitted (check_content env p content st) =
        emitted st @ map (annotation p content json) before
          @ [CoreError (message i) (file_only p)] @ map (annotation p content json) after
    \<and> SchemaValidationError_annotate env p (before @ i # after) content =
        map (annotation p content json) before
          @ [CoreError (message i) (file_only p)] @ map (annotation p content json) after"
proof -
  have none: "findNodeAtLocation json (path i) = None"
    using assms(1-3) by (simp add: findNodeAtLocation_append)
  then have ann: "annotation p content json i = CoreError (message i) (file_only p)"
    by (simp add: annotation_def file_only_def no_properties_def)
  from none ann assms(4-6) show ?thesis
    by (simp add: check_content_def SchemaValidationError_annotate_def file_only_def
        no_properties_def)
qed

theorem unresolved_step_file_level_witness:
  "findNodeAtLocation demo_tree [Key ''name''] = None
    \<and> emitted (check_content demo_env ''a/odd.json'' demo_doc empty_state) =
        [CoreError ''Expected string''
           \<lparr> file = Some ''a/odd.json'', startLine = Some 2, startColumn = Some 2,
             endLine = Some 2, endColumn = Some 4 \<rparr>,
         CoreError ''Required'' (file_only ''a/odd.json'')]"
proof -
  let ?i = "\<lparr> path = [Key ''name''], message = ''Required'' \<rparr>"
  let ?b = "[\<lparr> path = [Index 1], message = ''Expected string'' \<rparr>]"
  have h1: "path ?i = [] @ Key ''name'' # []" by simp
  have h2: "findNodeAtLocation demo_tree [] = Some demo_tree" by simp
  have h3: "descend demo_tree (Key ''name'') = None" by (simp add: demo_tree_def)
  have h4: "JSON_parse demo_env demo_doc = Inr demo_doc" by (simp add: demo_env_def demo_doc_def)
  have h5: "safeParse demo_env demo_doc = Inl (?b @ ?i # [])"
    by (simp add: demo_env_def demo_doc_def demo_issues_def)
  have h6: "parseTree demo_env demo_doc = Some demo_tree" by (simp add: demo_env_def)
  from unresolved_step_file_level [OF h1 h2 h3 h4 h5 h6, of "''a/odd.json''" empty_state]
  show ?thesis
    by (simp add: empty_state_def annotation_def demo_tree_def demo_positions)
qed

text \<open>
  C4 as stated: every file whose text fails structural JSON parsing gets exactly one
  diagnostic whose message is \<open>Invalid JSON file!\<close>. In \<open>run\<close> the message is another one:
  the \<open>catch\<close> of the file task reports \<open>Failed to parse JSON in file:\<close> followed by the
  path.
\<close>

theorem parse_failure_counterexample:
  "JSON_parse demo_env ''['' = Inl (ErrorInstance ''Unexpected end of JSON input'')
   \<and> error_messages (emitted (check_content demo_env ''a/bad.json'' ''['' empty_state)) =
       [''Failed to parse JSON in file: a/bad.json'']
   \<and> error_messages (emitted (check_content demo_env ''a/bad.json'' ''['' empty_state)) \<noteq>
       [''Invalid JSON file!'']"
  by (simp add: demo_env_def empty_state_def check_content_def emit_def error_messages_def)

text \<open>
  C4 (as amended): for every file whose text fails structural JSON parsing the failure
  count goes up by exactly one and exactly one diagnostic is emitted, with the file and
  no start or end position. Its message is \<open>Failed to parse JSON in file:\<close> followed by
  the path in \<open>run\<close>, and \<open>Invalid JSON file!\<close> in \<open>checkEvents\<close>, where the file is one
  rejection among those counted and is alone in a run of its own with the summary for
  one file.
\<close>

theorem parse_failure_reported_once:
  assumes "JSON_parse env content = Inl e"
  shows "errorCount (check_content env p content st) = errorCount st + 1
    \<and> emitted (check_content env p content st) =
        emitted st @
          [CoreError (''Failed to parse JSON in file: '' @ p)
             \<lparr> file = Some p, startLine = None, startColumn = None,
               endLine = None, endColumn = None \<rparr>]
    \<and> (\<not> startsWith f ''.'' \<and> readFile env (join env dir f) = Inr content \<longrightarrow>
         rejections env dir (fs1 @ f # fs2) =
           rejections env dir fs1 @ [JSONParseError (join env dir f) e] @ rejections env dir fs2
       \<and> report env (JSONParseError (join env dir f) e) =
           [CoreError ''Invalid JSON file!''
              \<lparr> file = Some (join env dir f), startLine = None, startColumn = None,
                endLine = None, endColumn = None \<rparr>]
       \<and> checkEvents env dir [f] =
           [CoreError ''Invalid JSON file!''
              \<lparr> file = Some (join env dir f), startLine = None, startColumn = None,
                endLine = None, endColumn = None \<rparr>,
            CoreSetFailed ''Validation failed for 1 file(s)!''])"
proof -
  have a: "errorCount (check_content env p content st) = errorCount st + 1"
    using assms by (simp add: check_content_def emit_def)
  have b: "emitted (check_content env p content st) =
        emitted st @
          [CoreError (''Failed to parse JSON in file: '' @ p)
             \<lparr> file = Some p, startLine = None, startColumn = None,
               endLine = None, endColumn = None \<rparr>]"
    using assms by (simp add: check_content_def emit_def file_only_def no_properties_def)
  have c: "rejections env dir (fs1 @ f # fs2) =
           rejections env dir fs1 @ [JSONParseError (join env dir f) e] @ rejections env dir fs2"
    if "\<not> startsWith f ''.''" "readFile env (join env dir f) = Inr content"
    using that assms by (simp add: rejections_def check_task_def Let_def)
  have d: "report env (JSONParseError (join env dir f) e) =
           [CoreError ''Invalid JSON file!''
              \<lparr> file = Some (join env dir f), startLine = None, startColumn = None,
                endLine = None, endColumn = None \<rparr>]"
    by (simp add: JSONParseError_annotate_def file_only_def no_properties_def)
  have e: "checkEvents env dir [f] =
           [CoreError ''Invalid JSON file!''
              \<lparr> file = Some (join env dir f), startLine = None, startColumn = None,
                endLine = None, endColumn = None \<rparr>,
            CoreSetFailed ''Validation failed for 1 file(s)!'']"
    if "\<not> startsWith f ''.''" "readFile env (join env dir f) = Inr content"
    using that assms
    by (simp add: checkEvents_def rejections_def check_task_def Let_def digits_1
        JSONParseError_annotate_def file_only_def no_properties_def)
  from a b c d e show ?thesis by blast
qed

text \<open>
  The sample text that does not parse, in \<open>run\<close> and in \<open>checkEvents\<close>.
\<close>

theorem parse_failure_reported_once_witness:
  "errorCount (check_content demo_env ''a/bad.json'' ''['' empty_state) = 1
   \<and> emitted (check_content demo_env ''a/bad.json'' ''['' empty_state) =
       [CoreError ''Failed to parse JSON in file: a/bad.json'' (file_only ''a/bad.json'')]
   \<and> \<not> startsWith ''bad.json'' ''.''
   \<and> readFile demo_env (join demo_env ''a'' ''bad.json'') = Inr ''[''
   \<and> checkEvents demo_env ''a'' [''bad.json''] =
       [CoreError ''Invalid JSON file!'' (file_only ''a/bad.json''),
        CoreSetFailed ''Validation failed for 1 file(s)!'']"
proof -
  have h: "JSON_parse demo_env ''['' = Inl (ErrorInstance ''Unexpected end of JSON input'')"
    by (simp add: demo_env_def)
  have g: "\<not> startsWith ''bad.json'' ''.''" by (simp add: startsWith_def)
  have r: "readFile demo_env (join demo_env ''a'' ''bad.json'') = Inr ''[''"
    by (simp add: demo_env_def)
  have j: "join demo_env ''a'' ''bad.json'' = ''a/bad.json''" by (simp add: demo_env_def)
  from parse_failure_reported_once [OF h, of "''a/bad.json''" empty_state "''bad.json''" "''a''"]
    g r j
  show ?thesis by (simp add: empty_state_def file_only_def no_properties_def)
qed

text \<open>
  C5: for a file that parses as JSON, fails the schema with \<open>k\<close> issues and has a
  syntax tree, exactly \<open>k\<close> diagnostics are emitted, one per issue and in their order; a
  diagnostic whose node is found starts at the position of \<open>node.offset\<close> and ends at the
  position of \<open>node.offset + node.length\<close>, with one added to line and column, and the
  failure count goes up by exactly one for the file. The tree is there whenever the text
  parses (the contract of the tree parser); the case without a tree is C6.
\<close>

theorem schema_failure_one_diagnostic_per_issue:
  assumes "JSON_parse env content = Inr js"
    and "safeParse env js = Inl issues"
    and "parseTree env content = Some json"
  shows "errorCount (check_content env p content st) = errorCount st + 1
    \<and> emitted (check_content env p content st) =
        emitted st @ SchemaValidationError_annotate env p issues content
    \<and> length (SchemaValidationError_annotate env p issues content) = length issues
    \<and> (\<forall>k < length issues.
          SchemaValidationError_annotate env p issues content ! k =
            CoreError (message (issues ! k))
              (case findNodeAtLocation json (path (issues ! k)) of
                 None \<Rightarrow>
                   \<lparr> file = Some p, startLine = None, startColumn = None,
                     endLine = None, endColumn = None \<rparr>
               | Some n \<Rightarrow>
                   \<lparr> file = Some p,
                     startLine = Some (line (getPosition content (node_offset n)) + 1),
                     startColumn = Some (column (getPosition content (node_offset n)) + 1),
                     endLine =
                       Some (line (getPosition content (node_offset n + node_length n)) + 1),
                     endColumn =
                       Some (column (getPosition content (node_offset n + node_length n)) + 1) \<rparr>))
    \<and> (\<not> startsWith f ''.'' \<and> readFile env (join env dir f) = Inr content \<longrightarrow>
         rejections env dir (fs1 @ f # fs2) =
           rejections env dir fs1 @ [SchemaValidationError (join env dir f) issues content]
             @ rejections env dir fs2
         \<and> report env (SchemaValidationError (join env dir f) issues content) =
             SchemaValidationError_annotate env (join env dir f) issues content)"
proof -
  have a: "errorCount (check_content env p content st) = errorCount st + 1"
    using assms by (simp add: check_content_def)
  have b: "emitted (check_content env p content st) =
        emitted st @ SchemaValidationError_annotate env p issues content"
    using assms by (simp add: check_content_def SchemaValidationError_annotate_def)
  have c: "length (SchemaValidationError_annotate env p issues content) = length issues"
    using assms by (simp add: SchemaValidationError_annotate_def)
  have d: "SchemaValidationError_annotate env p issues content ! k =
            CoreError (message (issues ! k))
              (case findNodeAtLocation json (path (issues ! k)) of
                 None \<Rightarrow>
                   \<lparr> file = Some p, startLine = None, startColumn = None,
                     endLine = None, endColumn = None \<rparr>
               | Some n \<Rightarrow>
                   \<lparr> file = Some p,
                     startLine = Some (line (getPosition content (node_offset n)) + 1),
                     startColumn = Some (column (getPosition content (node_offset n)) + 1),
                     endLine =
                       Some (line (getPosition content (node_offset n + node_length n)) + 1),
                     endColumn =
                       Some (column (getPosition content (node_offset n + node_length n)) + 1) \<rparr>)"
    if "k < length issues" for k
    using that assms
    by (simp add: SchemaValidationError_annotate_def annotation_def Let_def split: option.splits)
  have e: "rejections env dir (fs1 @ f # fs2) =
           rejections env dir fs1 @ [SchemaValidationError (join env dir f) issues content]
             @ rejections env dir fs2"
    if "\<not> startsWith f ''.''" "readFile env (join env dir f) = Inr content"
    using that assms by (simp add: rejections_def check_task_def Let_def)
  have g: "report env (SchemaValidationError (join env dir f) issues content) =
             SchemaValidationError_annotate env (join env dir f) issues content"
    by simp
  from a b c d e g show ?thesis by (intro conjI allI impI) simp_all
qed

text \<open>
  The sample document: two issues, two diagnostics, one of them located, one failure.
\<close>

theorem schema_failure_one_diagnostic_per_issue_witness:
  "JSON_parse demo_env demo_doc = Inr demo_doc
   \<and> safeParse demo_env demo_doc = Inl demo_issues
   \<and> parseTree demo_env demo_doc = Some demo_tree
   \<and> length demo_issues = 2
   \<and> errorCount (check_content demo_env ''a/odd.json'' demo_doc empty_state) = 1
   \<and> emitted (check_content demo_env ''a/odd.json'' demo_doc empty_state) =
       [CoreError ''Expected string''
          \<lparr> file = Some ''a/odd.json'', startLine = Some 2, startColumn = Some 2,
            endLine = Some 2, endColumn = Some 4 \<rparr>,
        CoreError ''Required''
          \<lparr> file = Some ''a/odd.json'', startLine = None, startColumn = None,
            endLine = None, endColumn = None \<rparr>]
   \<and> \<not> startsWith ''odd.json'' ''.''
   \<and> readFile demo_env (join demo_env ''a'' ''odd.json'') = Inr demo_doc
   \<and> rejections demo_env ''a'' [''odd.json''] =
       [SchemaValidationError ''a/odd.json'' demo_issues demo_doc]"
proof -
  have h1: "JSON_parse demo_env demo_doc = Inr demo_doc" by (simp add: demo_env_def demo_doc_def)
  have h2: "safeParse demo_env demo_doc = Inl demo_issues"
    by (simp add: demo_env_def demo_doc_def)
  have h3: "parseTree demo_env demo_doc = Some demo_tree" by (simp add: demo_env_def)
  have l: "length demo_issues = 2" by (simp add: demo_issues_def)
  have g: "\<not> startsWith ''odd.json'' ''.''" by (simp add: startsWith_def)
  have r: "readFile demo_env (join demo_env ''a'' ''odd.json'') = Inr demo_doc"
    by (simp add: demo_env_def)
  have j: "join demo_env ''a'' ''odd.json'' = ''a/odd.json''" by (simp add: demo_env_def)
  have ann: "SchemaValidationError_annotate demo_env ''a/odd.json'' demo_issues demo_doc =
       [CoreError ''Expected string''
          \<lparr> file = Some ''a/odd.json'', startLine = Some 2, startColumn = Some 2,
            endLine = Some 2, endColumn = Some 4 \<rparr>,
        CoreError ''Required''
          \<lparr> file = Some ''a/odd.json'', startLine = None, startColumn = None,
            endLine = None, endColumn = None \<rparr>]"
    by (simp add: SchemaValidationError_annotate_def h3 demo_issues_def annotation_def
        demo_tree_def demo_positions)
  note t = schema_failure_one_diagnostic_per_issue [OF h1 h2 h3, of "''a/odd.json''" empty_state
      "''odd.json''" "''a''" "[]" "[]"]
  from t have c: "errorCount (check_content demo_env ''a/odd.json'' demo_doc empty_state) = 1"
    by (simp add: empty_state_def)
  from t ann have e: "emitted (check_content demo_env ''a/odd.json'' demo_doc empty_state) =
       [CoreError ''Expected string''
          \<lparr> file = Some ''a/odd.json'', startLine = Some 2, startColumn = Some 2,
            endLine = Some 2, endColumn = Some 4 \<rparr>,
        CoreError ''Required''
          \<lparr> file = Some ''a/odd.json'', startLine = None, startColumn = None,
            endLine = None, endColumn = None \<rparr>]"
    by (simp add: empty_state_def)
  from t g r j have rj: "rejections demo_env ''a'' [''odd.json''] =
       [SchemaValidationError ''a/odd.json'' demo_issues demo_doc]"
    by (simp add: rejections_def)
  show ?thesis
    by (intro conjI) (fact h1 h2 h3 l c e g r rj)+
qed

text \<open>
  C6 as stated: when the schema check reports issues and the tree parser returns
  nothing, each issue is still emitted as a diagnostic of the file. The code returns
  before the loop (\<open>if (json == null) return\<close>): two issues, no diagnostic.
\<close>

theorem null_tree_drops_diagnostics_counterexample:
  "JSON_parse demo_env ''8'' = Inr ''8''
   \<and> safeParse demo_env ''8'' = Inl demo_issues
   \<and> length demo_issues = 2
   \<and> parseTree demo_env ''8'' = None
   \<and> emitted (check_content demo_env ''a/eight.json'' ''8'' empty_state) = []
   \<and> SchemaValidationError_annotate demo_env ''a/eight.json'' demo_issues ''8'' = []"
  by (simp add: demo_env_def demo_doc_def demo_issues_def empty_state_def check_content_def
      SchemaValidationError_annotate_def)

text \<open>
  C6 (as amended): when the schema check reports issues and the tree parser returns
  nothing, no diagnostic is emitted for the file, in \<open>run\<close> as in
  \<open>SchemaValidationError.annotate\<close>; the file still counts as one failure.
\<close>

theorem null_tree_emits_nothing:
  assumes "JSON_parse env content = Inr js"
    and "safeParse env js = Inl issues"
    and "parseTree env content = None"
  shows "emitted (check_content env p content st) = emitted st
    \<and> errorCount (check_content env p content st) = errorCount st + 1
    \<and> SchemaValidationError_annotate env p issues content = []
    \<and> report env (SchemaValidationError p issues content) = []"
  using assms by (simp add: check_content_def SchemaValidationError_annotate_def)

text \<open>
  A text that parses and fails the schema, and for which there is no tree.
\<close>

theorem null_tree_emits_nothing_witness:
  "JSON_parse demo_env ''8'' = Inr ''8''
   \<and> safeParse demo_env ''8'' = Inl demo_issues
   \<and> parseTree demo_env ''8'' = None
   \<and> emitted (check_content demo_env ''a/eight.json'' ''8'' empty_state) = []
   \<and> errorCount (check_content demo_env ''a/eight.json'' ''8'' empty_state) = 1
   \<and> report demo_env (SchemaValidationError ''a/eight.json'' demo_issues ''8'') = []"
proof -
  have h1: "JSON_parse demo_env ''8'' = Inr ''8''" by (simp add: demo_env_def)
  have h2: "safeParse demo_env ''8'' = Inl demo_issues" by (simp add: demo_env_def)
  have h3: "parseTree demo_env ''8'' = None" by (simp add: demo_env_def demo_doc_def)
  note t = null_tree_emits_nothing [OF h1 h2 h3, of "''a/eight.json''" empty_state]
  from t have a: "emitted (check_content demo_env ''a/eight.json'' ''8'' empty_state) = []"
    "errorCount (check_content demo_env ''a/eight.json'' ''8'' empty_state) = 1"
    "report demo_env (SchemaValidationError ''a/eight.json'' demo_issues ''8'') = []"
    by (simp_all add: empty_state_def)
  show ?thesis
    by (intro conjI) (fact h1 h2 h3 a)+
qed




text \<open>
  C8: when the reads all succeed, the last file written by \<open>run\<close> is the manifest; its
  entries have distinct paths, which are exactly the awaited paths that validated (so no
  failed file, and no hidden entry or directory, which are never awaited), and the URL of
  each entry is the pages URL \<open>https://owner.github.io/repo\<close>, then \<open>/events/\<close>, then the
  path of the entry. The order in which the reads complete is any arrangement of the
  awaited paths.
\<close>

theorem manifest_lists_validated_events:
  assumes "fst (run_try env files) = None"
    and "set (completionOrder env (read_paths env files)) = set (read_paths env files)"
    and "context_repo env = (owner, repo)"
  shows "(\<exists>es. last (written (run env files)) =
            (''.index.json'',
             Manifest \<lparr> repository = owner @ ''/'' @ repo, manifest_events = es \<rparr>)
          \<and> distinct (map entry_path es)
          \<and> set (map entry_path es) = {p \<in> set (read_paths env files). validates env p}
          \<and> (\<forall>e \<in> set es.
                url e = ''https://'' @ owner @ ''.github.io/'' @ repo @ ''/events/'' @ entry_path e))
    \<and> url (index_entry_of (pagesUrl ''owner'' ''repo'') ''a/b.json'') =
        ''https://owner.github.io/repo/events/a/b.json''"
proof -
  from assms(1) obtain st2 where
    r: "run env files = finish env st2"
    and d: "distinct (map fst (events st2))"
    and k: "fst ` set (events st2) =
       {p \<in> set (completionOrder env (read_paths env files)). validates env p}"
    by (rule fulfilled_run)
  let ?pages = "pagesUrl owner repo"
  let ?es = "map (\<lambda>kv. index_entry_of ?pages (fst kv)) (events st2)"
  have paths: "map entry_path ?es = map fst (events st2)"
    by (simp add: index_entry_of_def comp_def)
  have 1: "last (written (run env files)) =
            (''.index.json'',
             Manifest \<lparr> repository = owner @ ''/'' @ repo, manifest_events = ?es \<rparr>)"
    using r assms(3) by (simp add: finish_written)
  have 2: "distinct (map entry_path ?es)" using d by (simp only: paths)
  have 3: "set (map entry_path ?es) = {p \<in> set (read_paths env files). validates env p}"
    using k assms(2) by (simp only: paths set_map)
  have 4: "\<forall>e \<in> set ?es.
      url e = ''https://'' @ owner @ ''.github.io/'' @ repo @ ''/events/'' @ entry_path e"
    by (auto simp: index_entry_of_def pagesUrl_def)
  have 5: "url (index_entry_of (pagesUrl ''owner'' ''repo'') ''a/b.json'') =
        ''https://owner.github.io/repo/events/a/b.json''"
    by (simp add: index_entry_of_def pagesUrl_def)
  from 1 2 3 4 have "\<exists>es. last (written (run env files)) =
            (''.index.json'',
             Manifest \<lparr> repository = owner @ ''/'' @ repo, manifest_events = es \<rparr>)
          \<and> distinct (map entry_path es)
          \<and> set (map entry_path es) = {p \<in> set (read_paths env files). validates env p}
          \<and> (\<forall>e \<in> set es.
                url e = ''https://'' @ owner @ ''.github.io/'' @ repo @ ''/events/'' @ entry_path e)"
    by (intro exI [of _ ?es] conjI)
  with 5 show ?thesis by (intro conjI)
qed

text \<open>
  The sample repository: of three awaited paths one validates, and it is the one entry.
\<close>

theorem manifest_lists_validated_events_witness:
  "fst (run_try demo_env demo_files) = None
   \<and> set (completionOrder demo_env (read_paths demo_env demo_files)) =
       set (read_paths demo_env demo_files)
   \<and> context_repo demo_env = (''owner'', ''repo'')
   \<and> read_paths demo_env demo_files = [''a/b.json'', ''a/bad.json'', ''a/odd.json'']
   \<and> {p \<in> set (read_paths demo_env demo_files). validates demo_env p} = {''a/b.json''}
   \<and> last (written (run demo_env demo_files)) =
       (''.index.json'',
        Manifest \<lparr> repository = ''owner/repo'',
                   manifest_events =
                     [\<lparr> entry_path = ''a/b.json'',
                        url = ''https://owner.github.io/repo/events/a/b.json'' \<rparr>] \<rparr>)"
proof -
  have h1: "fst (run_try demo_env demo_files) = None" by code_simp
  have h2: "set (completionOrder demo_env (read_paths demo_env demo_files)) =
       set (read_paths demo_env demo_files)"
    by (simp add: demo_env_def)
  have h3: "context_repo demo_env = (''owner'', ''repo'')" by (simp add: demo_env_def)
  have p: "read_paths demo_env demo_files = [''a/b.json'', ''a/bad.json'', ''a/odd.json'']"
    by code_simp
  have w: "last (written (run demo_env demo_files)) =
      (''.index.json'',
       Manifest \<lparr> repository = ''owner/repo'',
                  manifest_events =
                    [\<lparr> entry_path = ''a/b.json'',
                       url = ''https://owner.github.io/repo/events/a/b.json'' \<rparr>] \<rparr>)"
    by code_simp
  from manifest_lists_validated_events [OF h1 h2 h3] obtain es where
    es: "last (written (run demo_env demo_files)) =
            (''.index.json'',
             Manifest \<lparr> repository = ''owner'' @ ''/'' @ ''repo'', manifest_events = es \<rparr>)"
      "set (map entry_path es) =
         {p \<in> set (read_paths demo_env demo_files). validates demo_env p}"
    by (elim conjE exE)
  from es(1) w have "es = [\<lparr> entry_path = ''a/b.json'',
                       url = ''https://owner.github.io/repo/events/a/b.json'' \<rparr>]"
    by simp
  with es(2) have v: "{p \<in> set (read_paths demo_env demo_files). validates demo_env p} =
      {''a/b.json''}"
    by simp
  show ?thesis
    by (intro conjI) (fact h1 h2 h3 p v w)+
qed

text \<open>
  C9 as stated: every value thrown out of the run, instance of \<open>Error\<close> or not, becomes
  a failed outcome. A read rejected with a value that is not an \<open>Error\<close> leaves the run
  without a call of \<open>setFailed\<close>.
\<close>

theorem non_error_rejection_counterexample:
  "fst (run_try demo_env [\<lparr> name = ''gone.json'', parentPath = ''a'', kind = File \<rparr>]) =
     Some (NonError ''gone'')
   \<and> \<not> failed (emitted (run demo_env [\<lparr> name = ''gone.json'', parentPath = ''a'', kind = File \<rparr>]))"
  by code_simp

text \<open>
  C9 (as amended): a value thrown out of the \<open>try\<close> block of \<open>run\<close> is caught at the
  outermost \<open>catch\<close> and the run ends there. When the value is an instance of \<open>Error\<close>,
  \<open>setFailed\<close> is called exactly once, with its message, and the outcome is a failure;
  for any other value nothing is called and the outcome is not a failure.
\<close>

theorem escaping_exception_caught_once:
  assumes "fst (run_try env files) = Some e"
  shows "emitted (run env files) =
      emitted (snd (run_try env files)) @
        (case e of ErrorInstance m \<Rightarrow> [CoreSetFailed m] | NonError v \<Rightarrow> [])
    \<and> filter is_setFailed (emitted (run env files)) =
        (case e of ErrorInstance m \<Rightarrow> [CoreSetFailed m] | NonError v \<Rightarrow> [])
    \<and> (failed (emitted (run env files)) \<longleftrightarrow> (case e of ErrorInstance m \<Rightarrow> True | NonError v \<Rightarrow> False))"
proof -
  note r = rejected_run [OF assms]
  show ?thesis
  proof (cases e)
    case (ErrorInstance m)
    with r show ?thesis by (simp add: emit_def failed_filter)
  next
    case (NonError v)
    with r show ?thesis by (simp add: failed_filter)
  qed
qed

text \<open>
  A read rejected with an \<open>Error\<close>.
\<close>

theorem escaping_exception_caught_once_witness:
  "fst (run_try demo_env [\<lparr> name = ''locked.json'', parentPath = ''a'', kind = File \<rparr>]) =
     Some (ErrorInstance ''EACCES'')
   \<and> filter is_setFailed
       (emitted (run demo_env [\<lparr> name = ''locked.json'', parentPath = ''a'', kind = File \<rparr>])) =
     [CoreSetFailed ''EACCES'']
   \<and> failed (emitted (run demo_env [\<lparr> name = ''locked.json'', parentPath = ''a'', kind = File \<rparr>]))"
proof -
  let ?fs = "[\<lparr> name = ''locked.json'', parentPath = ''a'', kind = File \<rparr>]"
  have h: "fst (run_try demo_env ?fs) = Some (ErrorInstance ''EACCES'')" by code_simp
  note t = escaping_exception_caught_once [OF h, simplified thrown.case]
  from t h show ?thesis by blast
qed

text \<open>
  C10: \<open>getPosition\<close> is monotone in its offset: for offsets \<open>o1 \<le> o2\<close> between 0 and
  the length of the text, the position of \<open>o1\<close> is lexicographically at most that of
  \<open>o2\<close>. Hence the start of a located diagnostic is at most its end, for a node that
  lies within the text and has a length that is not negative.
\<close>

theorem getPosition_monotone:
  "(0 \<le> o1 \<and> o1 \<le> o2 \<and> o2 \<le> int (length text) \<longrightarrow>
      pos_le (getPosition text o1) (getPosition text o2))
   \<and> (findNodeAtLocation json (path i) = Some n \<and> 0 \<le> node_offset n \<and> 0 \<le> node_length n
        \<and> node_offset n + node_length n \<le> int (length content) \<longrightarrow>
      (\<exists>sl sc el ec.
         annotation p content json i =
           CoreError (message i)
             \<lparr> file = Some p, startLine = Some sl, startColumn = Some sc,
               endLine = Some el, endColumn = Some ec \<rparr>
         \<and> (sl < el \<or> (sl = el \<and> sc \<le> ec))))"
proof (intro conjI impI)
  assume "0 \<le> o1 \<and> o1 \<le> o2 \<and> o2 \<le> int (length text)"
  then show "pos_le (getPosition text o1) (getPosition text o2)"
    by (simp add: getPosition_mono)
next
  assume a: "findNodeAtLocation json (path i) = Some n \<and> 0 \<le> node_offset n
      \<and> 0 \<le> node_length n \<and> node_offset n + node_length n \<le> int (length content)"
  let ?s = "getPosition content (node_offset n)"
  let ?e = "getPosition content (node_offset n + node_length n)"
  have "pos_le ?s ?e" using a by (intro getPosition_mono) simp_all
  then have ord: "line ?s + 1 < line ?e + 1 \<or> (line ?s + 1 = line ?e + 1 \<and> column ?s + 1 \<le> column ?e + 1)"
    by (auto simp: pos_le_def)
  have "annotation p content json i =
           CoreError (message i)
             \<lparr> file = Some p, startLine = Some (line ?s + 1), startColumn = Some (column ?s + 1),
               endLine = Some (line ?e + 1), endColumn = Some (column ?e + 1) \<rparr>"
    using a by (simp add: annotation_def)
  with ord show "\<exists>sl sc el ec.
         annotation p content json i =
           CoreError (message i)
             \<lparr> file = Some p, startLine = Some sl, startColumn = Some sc,
               endLine = Some el, endColumn = Some ec \<rparr>
         \<and> (sl < el \<or> (sl = el \<and> sc \<le> ec))"
    by blast
qed

text \<open>
  The second line of the sample document, and the diagnostic located there.
\<close>

theorem getPosition_monotone_witness:
  "(0::int) \<le> 3 \<and> (3::int) \<le> 6 \<and> 6 \<le> int (length demo_doc)
   \<and> pos_le (getPosition demo_doc 3) (getPosition demo_doc 6)
   \<and> findNodeAtLocation demo_tree [Index 1] = Some (ValueNode 6 2)
   \<and> 0 \<le> node_offset (ValueNode 6 2) \<and> 0 \<le> node_length (ValueNode 6 2)
   \<and> node_offset (ValueNode 6 2) + node_length (ValueNode 6 2) \<le> int (length demo_doc)
   \<and> annotation ''a/odd.json'' demo_doc demo_tree
        \<lparr> path = [Index 1], message = ''Expected string'' \<rparr> =
       CoreError ''Expected string''
         \<lparr> file = Some ''a/odd.json'', startLine = Some 2, startColumn = Some 2,
           endLine = Some 2, endColumn = Some 4 \<rparr>"
proof -
  let ?i = "\<lparr> path = [Index 1], message = ''Expected string'' \<rparr>"
  have h1: "(0::int) \<le> 3" "(3::int) \<le> 6" "6 \<le> int (length demo_doc)"
    by (simp_all add: demo_doc_def)
  have h2: "findNodeAtLocation demo_tree [Index 1] = Some (ValueNode 6 2)"
    by (simp add: demo_tree_def)
  have h3: "0 \<le> node_offset (ValueNode 6 2)" "0 \<le> node_length (ValueNode 6 2)"
    "node_offset (ValueNode 6 2) + node_length (ValueNode 6 2) \<le> int (length demo_doc)"
    by (simp_all add: demo_doc_def)
  note t = getPosition_monotone [of 3 6 demo_doc demo_tree ?i "ValueNode 6 2" demo_doc
      "''a/odd.json''"]
  from t h1 have m: "pos_le (getPosition demo_doc 3) (getPosition demo_doc 6)" by blast
  have ann: "annotation ''a/odd.json'' demo_doc demo_tree ?i =
       CoreError ''Expected string''
         \<lparr> file = Some ''a/odd.json'', startLine = Some 2, startColumn = Some 2,
           endLine = Some 2, endColumn = Some 4 \<rparr>"
    by (simp add: annotation_def demo_tree_def demo_positions)
  show ?thesis
    by (intro conjI) (fact h1 h2 h3 m ann)+
qed

end
